theory Spec2Isabelle
  imports Complex_Main
begin

section \<open>Value iteration and policy iteration (assignment1/vi\_and\_pi.bak.py)\<close>

text \<open>
  A shallow embedding of the five functions of \<^verbatim>\<open>vi_and_pi.bak.py\<close>:
  \<^verbatim>\<open>p_to_tensor\<close>, \<^verbatim>\<open>policy_evaluation\<close>, \<^verbatim>\<open>policy_improvement\<close>,
  \<^verbatim>\<open>policy_iteration\<close> and \<^verbatim>\<open>value_iteration\<close>.

  Modelling decisions.
  \<^item> A Python float is a \<^typ>\<open>real\<close>: rounding, infinities and NaN are not modelled.
    Every statement below about a computed number is a statement about the exact
    arithmetic the source writes down.
  \<^item> A numpy integer is an \<^typ>\<open>int\<close> (no 64-bit overflow); \<^verbatim>\<open>nS\<close> and \<^verbatim>\<open>nA\<close>
    are naturals.
  \<^item> A one-dimensional numpy array is a list, a two-dimensional one a list of rows.
  \<^item> The transition model \<^verbatim>\<open>P\<close> is a dictionary of dictionaries of outcome lists;
    an outcome is the 4-tuple (probability, nextstate, reward, terminal). The next
    state is stored in a float tensor and read back with \<^verbatim>\<open>astype(int)\<close>; for an
    integer next state this round trip is the identity, so the model keeps the integer.
  \<^item> A Python exception is a value \<open>Inl e\<close>; a \<^verbatim>\<open>while True\<close> loop is a
    \<^theory_text>\<open>partial_function (option)\<close>, so that a loop that never leaves is \<open>None\<close>.
    A call therefore has one of three outcomes: \<open>None\<close> (runs forever),
    \<open>Some (Inl e)\<close> (raises \<open>e\<close>), \<open>Some (Inr v)\<close> (returns \<open>v\<close>).
\<close>

subsection \<open>Errors and data\<close>

text \<open>
  \<open>KeyError\<close>, \<open>IndexError\<close> and \<open>ValueError\<close> are the Python exceptions the source
  can raise (a missing dictionary key, an index out of range, a shape mismatch or a
  reduction over an empty axis). \<open>InvalidConfiguration\<close>, \<open>ModelShapeError\<close> and
  \<open>NonConvergence\<close> are the error kinds the specification names; no definition below
  constructs them, because no line of the source raises them.
\<close>

datatype error =
  KeyError | IndexError | ValueError
  | InvalidConfiguration | ModelShapeError | NonConvergence

type_synonym outcome = "real \<times> int \<times> real \<times> bool"

type_synonym model = "nat \<Rightarrow> (nat \<Rightarrow> outcome list option) option"

subsection \<open>The numpy operations the source uses\<close>

text \<open>Running a fallible function over a list, stopping at the first exception.\<close>

fun traverse :: "('a \<Rightarrow> error + 'b) \<Rightarrow> 'a list \<Rightarrow> error + 'b list" where
  "traverse f [] = Inr []"
| "traverse f (x # xs) =
     (case f x of
        Inl e \<Rightarrow> Inl e
      | Inr y \<Rightarrow> (case traverse f xs of Inl e \<Rightarrow> Inl e | Inr ys \<Rightarrow> Inr (y # ys)))"

text \<open>
  Indexing an array with an integer taken from an index array (\<^verbatim>\<open>V[s_next]\<close>,
  \<^verbatim>\<open>np.take\<close>): an index in \<open>[-n, 0)\<close> counts from the end, anything outside
  \<open>[-n, n)\<close> raises IndexError.
\<close>

definition np_getitem :: "'a list \<Rightarrow> int \<Rightarrow> error + 'a" where
  "np_getitem xs i =
     (let n = int (length xs)
      in if 0 \<le> i \<and> i < n then Inr (xs ! nat i)
         else if - n \<le> i \<and> i < 0 then Inr (xs ! nat (i + n))
         else Inl IndexError)"

text \<open>\<^verbatim>\<open>np.take(a, indices)\<close> without an axis indexes the flattened (row-major) array.\<close>

definition np_take :: "'a list list \<Rightarrow> int list \<Rightarrow> error + 'a list" where
  "np_take a indices = traverse (np_getitem (concat a)) indices"

text \<open>
  An elementwise binary operation on two one-dimensional arrays, with numpy's
  broadcasting: equal lengths go pointwise, a length-1 array is stretched, anything
  else raises ValueError.
\<close>

definition broadcast2 :: "('a \<Rightarrow> 'b \<Rightarrow> 'c) \<Rightarrow> 'a list \<Rightarrow> 'b list \<Rightarrow> error + 'c list" where
  "broadcast2 f xs ys =
     (if length xs = length ys then Inr (map2 f xs ys)
      else if length xs = 1 then Inr (map (f (hd xs)) ys)
      else if length ys = 1 then Inr (map (\<lambda>x. f x (hd ys)) xs)
      else Inl ValueError)"

text \<open>The maximum of a non-empty array, scanned from the left.\<close>

definition amax :: "real list \<Rightarrow> real" where
  "amax xs = fold max (tl xs) (hd xs)"

text \<open>
  \<^verbatim>\<open>np.linalg.norm(x, ord=np.inf)\<close> of a vector is \<^verbatim>\<open>abs(x).max()\<close>; the
  maximum of an empty array raises ValueError.
\<close>

definition norm_inf :: "real list \<Rightarrow> error + real" where
  "norm_inf x = (if x = [] then Inl ValueError else Inr (amax (map abs x)))"

text \<open>\<^verbatim>\<open>np.linalg.norm(V - V_new, ord=np.inf)\<close>.\<close>

definition linf_dist :: "real list \<Rightarrow> real list \<Rightarrow> error + real" where
  "linf_dist V V_new =
     (case broadcast2 (-) V V_new of Inl e \<Rightarrow> Inl e | Inr d \<Rightarrow> norm_inf d)"

text \<open>
  \<^verbatim>\<open>np.max(Q, axis=1)\<close> on an array of shape \<open>(nS, nA)\<close>: the maximum of every row;
  a reduction over an axis of length 0 raises ValueError.
\<close>

definition np_max_axis1 :: "nat \<Rightarrow> real list list \<Rightarrow> error + real list" where
  "np_max_axis1 nA Q = (if nA = 0 then Inl ValueError else Inr (map amax Q))"

text \<open>
  \<^verbatim>\<open>np.argmax\<close> of a non-empty row: one pass that remembers the best value and its
  index and replaces them only on a strictly greater element.
\<close>

fun argmax_scan :: "real list \<Rightarrow> nat \<Rightarrow> real \<Rightarrow> nat \<Rightarrow> nat" where
  "argmax_scan [] i mp mi = mi"
| "argmax_scan (x # xs) i mp mi =
     (if mp < x then argmax_scan xs (Suc i) x i else argmax_scan xs (Suc i) mp mi)"

definition np_argmax :: "real list \<Rightarrow> nat" where
  "np_argmax xs = argmax_scan (tl xs) 1 (hd xs) 0"

definition np_argmax_axis1 :: "nat \<Rightarrow> real list list \<Rightarrow> error + int list" where
  "np_argmax_axis1 nA Q =
     (if nA = 0 then Inl ValueError else Inr (map (\<lambda>row. int (np_argmax row)) Q))"

definition zipWith3 :: "('a \<Rightarrow> 'b \<Rightarrow> 'c \<Rightarrow> 'd) \<Rightarrow> 'a list \<Rightarrow> 'b list \<Rightarrow> 'c list \<Rightarrow> 'd list" where
  "zipWith3 f xs ys zs = map (\<lambda>(x, y, z). f x y z) (zip xs (zip ys zs))"

subsection \<open>\<^verbatim>\<open>p_to_tensor\<close>\<close>

text \<open>
  \<^verbatim>\<open>P[s][a][0][0:4]\<close>: two dictionary lookups (KeyError), then element 0 of the outcome
  list (IndexError when the list is empty). Whatever follows element 0 is not read.
\<close>

definition first_outcome :: "model \<Rightarrow> nat \<Rightarrow> nat \<Rightarrow> error + outcome" where
  "first_outcome P s a =
     (case P s of
        None \<Rightarrow> Inl KeyError
      | Some Ps \<Rightarrow>
          (case Ps a of
             None \<Rightarrow> Inl KeyError
           | Some [] \<Rightarrow> Inl IndexError
           | Some (x # rest) \<Rightarrow> Inr x))"

text \<open>The result is the triple \<open>(prob, s_next, r)\<close>, each of shape \<open>(nS, nA)\<close>.\<close>

definition p_to_tensor ::
  "model \<Rightarrow> nat \<Rightarrow> nat \<Rightarrow> error + (real list list \<times> int list list \<times> real list list)" where
  "p_to_tensor P nS nA =
     (case traverse (\<lambda>s. traverse (\<lambda>a. first_outcome P s a) [0..<nA]) [0..<nS] of
        Inl e \<Rightarrow> Inl e
      | Inr P_tensor \<Rightarrow>
          Inr (map (map (\<lambda>(p, n, r, t). p)) P_tensor,
               map (map (\<lambda>(p, n, r, t). n)) P_tensor,
               map (map (\<lambda>(p, n, r, t). r)) P_tensor))"

subsection \<open>\<^verbatim>\<open>policy_evaluation\<close>\<close>

text \<open>One element of \<^verbatim>\<open>prob * (r + gamma * V[s_next])\<close>.\<close>

definition backup :: "real \<Rightarrow> real \<Rightarrow> real \<Rightarrow> real \<Rightarrow> real" where
  "backup gamma p rw v = p * (rw + gamma * v)"

text \<open>\<^verbatim>\<open>V_new = prob_pi * (r_pi + gamma * V[s_next_pi])\<close>.\<close>

definition pe_sweep ::
  "real list \<Rightarrow> real list \<Rightarrow> int list \<Rightarrow> real \<Rightarrow> real list \<Rightarrow> error + real list" where
  "pe_sweep prob_pi r_pi s_next_pi gamma V =
     (case traverse (np_getitem V) s_next_pi of
        Inl e \<Rightarrow> Inl e
      | Inr Vn \<Rightarrow> Inr (zipWith3 (backup gamma) prob_pi r_pi Vn))"

text \<open>The \<^verbatim>\<open>while True\<close> loop of \<^verbatim>\<open>policy_evaluation\<close>; it returns \<^verbatim>\<open>V_new\<close>.\<close>

partial_function (option) pe_loop ::
  "real list \<Rightarrow> real list \<Rightarrow> int list \<Rightarrow> real \<Rightarrow> real \<Rightarrow> real list \<Rightarrow> (error + real list) option"
where
  "pe_loop prob_pi r_pi s_next_pi gamma tol V =
     (case pe_sweep prob_pi r_pi s_next_pi gamma V of
        Inl e \<Rightarrow> Some (Inl e)
      | Inr V_new \<Rightarrow>
          (case linf_dist V V_new of
             Inl e \<Rightarrow> Some (Inl e)
           | Inr d \<Rightarrow>
               if d < tol then Some (Inr V_new)
               else pe_loop prob_pi r_pi s_next_pi gamma tol V_new))"

text \<open>
  \<^verbatim>\<open>take_indices = nA*np.arange(nS) + policy\<close> addresses the flattened tensors, so
  the three \<^verbatim>\<open>np.take\<close> calls fail or succeed together.
\<close>

definition policy_evaluation ::
  "model \<Rightarrow> nat \<Rightarrow> nat \<Rightarrow> int list \<Rightarrow> real \<Rightarrow> real \<Rightarrow> (error + real list) option" where
  "policy_evaluation P nS nA policy gamma tol =
     (case p_to_tensor P nS nA of
        Inl e \<Rightarrow> Some (Inl e)
      | Inr (prob, s_next, r) \<Rightarrow>
          (case broadcast2 (+) (map (\<lambda>s. int nA * int s) [0..<nS]) policy of
             Inl e \<Rightarrow> Some (Inl e)
           | Inr take_indices \<Rightarrow>
               (case np_take prob take_indices of
                  Inl e \<Rightarrow> Some (Inl e)
                | Inr prob_pi \<Rightarrow>
                    (case np_take s_next take_indices of
                       Inl e \<Rightarrow> Some (Inl e)
                     | Inr s_next_pi \<Rightarrow>
                         (case np_take r take_indices of
                            Inl e \<Rightarrow> Some (Inl e)
                          | Inr r_pi \<Rightarrow>
                              pe_loop prob_pi r_pi s_next_pi gamma tol (replicate nS 0))))))"

subsection \<open>\<^verbatim>\<open>policy_improvement\<close>\<close>

text \<open>\<^verbatim>\<open>prob * (r + gamma * V[s_next])\<close> on the whole \<open>(nS, nA)\<close> tensors.\<close>

definition q_values ::
  "real list list \<Rightarrow> int list list \<Rightarrow> real list list \<Rightarrow> real \<Rightarrow> real list \<Rightarrow> error + real list list"
where
  "q_values prob s_next r gamma V =
     (case traverse (traverse (np_getitem V)) s_next of
        Inl e \<Rightarrow> Inl e
      | Inr Vn \<Rightarrow> Inr (zipWith3 (zipWith3 (backup gamma)) prob r Vn))"

text \<open>
  Python passes the array \<^verbatim>\<open>policy\<close> by reference. The first component of the result
  is the content of the caller's array when the call ends (the body holds no assignment
  into it), the second is what the call raises or returns. The \<^verbatim>\<open>print\<close> of the new
  policy is not modelled.
\<close>

definition policy_improvement ::
  "model \<Rightarrow> nat \<Rightarrow> nat \<Rightarrow> real list \<Rightarrow> int list \<Rightarrow> real \<Rightarrow> int list \<times> (error + int list)" where
  "policy_improvement P nS nA value_from_policy policy gamma =
     (policy,
      case p_to_tensor P nS nA of
        Inl e \<Rightarrow> Inl e
      | Inr (prob, s_next, r) \<Rightarrow>
          (case q_values prob s_next r gamma value_from_policy of
             Inl e \<Rightarrow> Inl e
           | Inr V_pi \<Rightarrow> np_argmax_axis1 nA V_pi))"

subsection \<open>\<^verbatim>\<open>policy_iteration\<close>\<close>

text \<open>
  The loop of \<^verbatim>\<open>policy_iteration\<close>. Both calls of \<^verbatim>\<open>policy_evaluation\<close> in the source
  pass \<^verbatim>\<open>gamma\<close> and no \<^verbatim>\<open>tol\<close>, so they run with the default \<^verbatim>\<open>tol=1e-3\<close>. The loop
  leaves with the current \<^verbatim>\<open>policy\<close>; the value \<^verbatim>\<open>V\<close> it holds is returned here as
  well, to make it available to the statements below.
\<close>

partial_function (option) pi_loop ::
  "model \<Rightarrow> nat \<Rightarrow> nat \<Rightarrow> real \<Rightarrow> real list \<Rightarrow> int list \<Rightarrow> (error + (real list \<times> int list)) option"
where
  "pi_loop P nS nA gamma V policy =
     (case policy_improvement P nS nA V policy gamma of
        (policy, Inl e) \<Rightarrow> Some (Inl e)
      | (policy, Inr policy_new) \<Rightarrow>
          (case policy_evaluation P nS nA policy_new gamma (1 / 1000) of
             None \<Rightarrow> None
           | Some (Inl e) \<Rightarrow> Some (Inl e)
           | Some (Inr V_new) \<Rightarrow>
               if policy = policy_new then Some (Inr (V, policy))
               else pi_loop P nS nA gamma V_new policy_new))"

text \<open>
  \<^verbatim>\<open>value_function = np.zeros(nS)\<close> is bound once; \<^verbatim>\<open>V = value_function\<close> followed by
  \<^verbatim>\<open>V = policy_evaluation(...)\<close> rebinds the local name \<^verbatim>\<open>V\<close> and leaves the array
  of zeros untouched. The function returns \<^verbatim>\<open>value_function, policy\<close>. The parameter
  \<^verbatim>\<open>tol\<close> occurs nowhere in the body.
\<close>

definition policy_iteration ::
  "model \<Rightarrow> nat \<Rightarrow> nat \<Rightarrow> real \<Rightarrow> real \<Rightarrow> (error + (real list \<times> int list)) option" where
  "policy_iteration P nS nA gamma tol =
     (let value_function = replicate nS (0::real);
          policy = replicate nS (0::int)
      in case policy_evaluation P nS nA policy gamma (1 / 1000) of
           None \<Rightarrow> None
         | Some (Inl e) \<Rightarrow> Some (Inl e)
         | Some (Inr V) \<Rightarrow>
             (case pi_loop P nS nA gamma V policy of
                None \<Rightarrow> None
              | Some (Inl e) \<Rightarrow> Some (Inl e)
              | Some (Inr (V_final, policy_final)) \<Rightarrow>
                  Some (Inr (value_function, policy_final))))"

subsection \<open>\<^verbatim>\<open>value_iteration\<close>\<close>

text \<open>
  One pass of the loop body: \<^verbatim>\<open>V_new = np.zeros(nS)\<close>,
  \<^verbatim>\<open>Q = prob * (r + gamma * V[s_next])\<close> and
  \<^verbatim>\<open>np.maximum(V_new, np.max(Q, axis=1), out=V_new)\<close>, the elementwise maximum of the
  zero array and the row maxima.
\<close>

definition vi_sweep ::
  "nat \<Rightarrow> nat \<Rightarrow> real list list \<Rightarrow> int list list \<Rightarrow> real list list \<Rightarrow> real \<Rightarrow> real list
     \<Rightarrow> error + real list" where
  "vi_sweep nS nA prob s_next r gamma V =
     (let V_new = replicate nS (0::real)
      in case q_values prob s_next r gamma V of
           Inl e \<Rightarrow> Inl e
         | Inr Q \<Rightarrow>
             (case np_max_axis1 nA Q of
                Inl e \<Rightarrow> Inl e
              | Inr m \<Rightarrow> Inr (map2 max V_new m)))"

partial_function (option) vi_loop ::
  "nat \<Rightarrow> nat \<Rightarrow> real list list \<Rightarrow> int list list \<Rightarrow> real list list \<Rightarrow> real \<Rightarrow> real \<Rightarrow> real list
     \<Rightarrow> (error + real list) option"
where
  "vi_loop nS nA prob s_next r gamma tol V =
     (case vi_sweep nS nA prob s_next r gamma V of
        Inl e \<Rightarrow> Some (Inl e)
      | Inr V_new \<Rightarrow>
          (case linf_dist V V_new of
             Inl e \<Rightarrow> Some (Inl e)
           | Inr d \<Rightarrow>
               if d < tol then Some (Inr V_new)
               else vi_loop nS nA prob s_next r gamma tol V_new))"

text \<open>
  As in \<^verbatim>\<open>policy_iteration\<close>, the returned \<^verbatim>\<open>value_function\<close> is the array of zeros
  bound in the first line: the loop rebinds \<^verbatim>\<open>V\<close> only. The policy is extracted from
  the \<^verbatim>\<open>V_new\<close> the loop left with.
\<close>

definition value_iteration ::
  "model \<Rightarrow> nat \<Rightarrow> nat \<Rightarrow> real \<Rightarrow> real \<Rightarrow> (error + (real list \<times> int list)) option" where
  "value_iteration P nS nA gamma tol =
     (let value_function = replicate nS (0::real);
          policy = replicate nS (0::int)
      in case p_to_tensor P nS nA of
           Inl e \<Rightarrow> Some (Inl e)
         | Inr (prob, s_next, r) \<Rightarrow>
             (case vi_loop nS nA prob s_next r gamma tol value_function of
                None \<Rightarrow> None
              | Some (Inl e) \<Rightarrow> Some (Inl e)
              | Some (Inr V_new) \<Rightarrow>
                  (case policy_improvement P nS nA V_new policy gamma of
                     (policy, Inl e) \<Rightarrow> Some (Inl e)
                   | (policy, Inr policy_new) \<Rightarrow> Some (Inr (value_function, policy_new)))))"

subsection \<open>The quantities the specification speaks of\<close>

text \<open>
  \<open>prob(s, a)\<close>, \<open>next_state(s, a)\<close> and \<open>reward(s, a)\<close>: the components of the
  outcome the adapter reads for the pair \<open>(s, a)\<close>.
\<close>

definition the_outcome :: "model \<Rightarrow> nat \<Rightarrow> nat \<Rightarrow> outcome" where
  "the_outcome P s a = (case first_outcome P s a of Inl e \<Rightarrow> (0, 0, 0, False) | Inr x \<Rightarrow> x)"

definition prob_of :: "model \<Rightarrow> nat \<Rightarrow> nat \<Rightarrow> real" where
  "prob_of P s a = (case the_outcome P s a of (p, n, r, t) \<Rightarrow> p)"

definition next_state :: "model \<Rightarrow> nat \<Rightarrow> nat \<Rightarrow> int" where
  "next_state P s a = (case the_outcome P s a of (p, n, r, t) \<Rightarrow> n)"

definition reward :: "model \<Rightarrow> nat \<Rightarrow> nat \<Rightarrow> real" where
  "reward P s a = (case the_outcome P s a of (p, n, r, t) \<Rightarrow> r)"

text \<open>
  One entry of \<^verbatim>\<open>prob * (r + gamma * V[s_next])\<close> in terms of the model: the
  Q-value of action \<open>a\<close> in state \<open>s\<close> under the value function \<open>V\<close>.
\<close>

definition q_value :: "model \<Rightarrow> real \<Rightarrow> real list \<Rightarrow> nat \<Rightarrow> nat \<Rightarrow> real" where
  "q_value P gamma V s a =
     backup gamma (prob_of P s a) (reward P s a)
       (case np_getitem V (next_state P s a) of Inl e \<Rightarrow> 0 | Inr v \<Rightarrow> v)"

text \<open>The outcome list of the pair \<open>(s, a)\<close> exists and is not empty.\<close>

definition has_outcome :: "model \<Rightarrow> nat \<Rightarrow> nat \<Rightarrow> bool" where
  "has_outcome P s a =
     (case P s of
        None \<Rightarrow> False
      | Some Ps \<Rightarrow> (case Ps a of None \<Rightarrow> False | Some xs \<Rightarrow> xs \<noteq> []))"







text \<open>
  The values the variable \<^verbatim>\<open>V_new\<close> of \<^verbatim>\<open>value_iteration\<close> takes: the result of
  \<open>k + 1\<close> passes of the loop body from the array of zeros, the stopping test left aside.
\<close>

fun vi_iterate ::
  "nat \<Rightarrow> nat \<Rightarrow> real list list \<Rightarrow> int list list \<Rightarrow> real list list \<Rightarrow> real \<Rightarrow> nat
     \<Rightarrow> error + real list" where
  "vi_iterate nS nA prob s_next r gamma 0 = Inr (replicate nS 0)"
| "vi_iterate nS nA prob s_next r gamma (Suc k) =
     (case vi_iterate nS nA prob s_next r gamma k of
        Inl e \<Rightarrow> Inl e
      | Inr V \<Rightarrow> vi_sweep nS nA prob s_next r gamma V)"

subsection \<open>Example models\<close>

text \<open>A dictionary with the keys \<open>0, ..., length xs - 1\<close>.\<close>

definition dict_of :: "'a list \<Rightarrow> nat \<Rightarrow> 'a option" where
  "dict_of xs k = (if k < length xs then Some (xs ! k) else None)"

definition model_of :: "outcome list list list \<Rightarrow> model" where
  "model_of rows = dict_of (map dict_of rows)"

text \<open>
  Four states, two actions, one outcome per pair. State 3 is absorbing with reward 0,
  state 2 moves to 3 with reward 1, state 1 moves to 2 with reward 0. In state 0,
  action 0 moves to state 1 with reward 0 and action 1 moves to state 3 with reward
  1/10. With \<open>gamma = 1/2\<close> the all-zero policy has the value \<open>[1/4, 1/2, 1, 0]\<close>.
\<close>

definition chain_model :: model where
  "chain_model = model_of
     [[[(1, 1, 0, False)], [(1, 3, 1 / 10, True)]],
      [[(1, 2, 0, False)], [(1, 2, 0, False)]],
      [[(1, 3, 1, True)], [(1, 3, 1, True)]],
      [[(1, 3, 0, True)], [(1, 3, 0, True)]]]"


text \<open>One state, one action: a self-loop with reward -1.\<close>

definition neg_model :: model where
  "neg_model = model_of [[[(1, 0, - 1, False)]]]"

text \<open>
  Two states, one action. From state 0 the action has two outcomes: with probability
  1/2 stay in state 0 with reward 1, with probability 1/2 move to state 1 with reward 3.
  \<open>first_only_model\<close> is the same model with the second outcome deleted.
\<close>

definition two_outcome_model :: model where
  "two_outcome_model = model_of
     [[[(1 / 2, 0, 1, False), (1 / 2, 1, 3, True)]],
      [[(1, 1, 0, True)]]]"

definition first_only_model :: model where
  "first_only_model = model_of
     [[[(1 / 2, 0, 1, False)]],
      [[(1, 1, 0, True)]]]"

declare pe_loop.simps [code]
declare pi_loop.simps [code]
declare vi_loop.simps [code]

section \<open>Properties\<close>

subsection \<open>The returned value function\<close>

lemma policy_iteration_value_zero:
  "policy_iteration P nS nA gamma tol = Some (Inr (vf, pol)) \<Longrightarrow> vf = replicate nS 0"
  by (auto simp: policy_iteration_def Let_def split: option.splits sum.splits prod.splits)

lemma value_iteration_value_zero:
  "value_iteration P nS nA gamma tol = Some (Inr (vf, pol)) \<Longrightarrow> vf = replicate nS 0"
  by (auto simp: value_iteration_def Let_def split: option.splits sum.splits prod.splits)

text \<open>
  C1. The claim: both entry algorithms return the value function their iteration
  computed. The source returns the array of zeros it allocated on entry. On
  \<open>chain_model\<close> with \<open>gamma = 1/2\<close> the loop of \<^verbatim>\<open>policy_iteration\<close> ends holding
  \<open>V = [1/4, 1/2, 1, 0]\<close>, the value of the returned policy, and the loop of
  \<^verbatim>\<open>value_iteration\<close> ends with the same iterate; both functions return
  \<open>[0, 0, 0, 0]\<close> as the value function.
\<close>

theorem entry_algorithms_return_zeros:
  "policy_evaluation chain_model 4 2 [0, 0, 0, 0] (1 / 2) (1 / 1000)
     = Some (Inr [1 / 4, 1 / 2, 1, 0])
   \<and> pi_loop chain_model 4 2 (1 / 2) [1 / 4, 1 / 2, 1, 0] [0, 0, 0, 0]
     = Some (Inr ([1 / 4, 1 / 2, 1, 0], [0, 0, 0, 0]))
   \<and> policy_iteration chain_model 4 2 (1 / 2) (1 / 100)
     = Some (Inr ([0, 0, 0, 0], [0, 0, 0, 0]))
   \<and> p_to_tensor chain_model 4 2
     = Inr ([[1, 1], [1, 1], [1, 1], [1, 1]],
            [[1, 3], [2, 2], [3, 3], [3, 3]],
            [[0, 1 / 10], [0, 0], [1, 1], [0, 0]])
   \<and> vi_loop 4 2 [[1, 1], [1, 1], [1, 1], [1, 1]] [[1, 3], [2, 2], [3, 3], [3, 3]]
        [[0, 1 / 10], [0, 0], [1, 1], [0, 0]] (1 / 2) (1 / 1000) [0, 0, 0, 0]
     = Some (Inr [1 / 4, 1 / 2, 1, 0])
   \<and> value_iteration chain_model 4 2 (1 / 2) (1 / 1000)
     = Some (Inr ([0, 0, 0, 0], [0, 0, 0, 0]))"
  by code_simp

subsection \<open>The tolerance of the evaluation sub-step\<close>

lemma policy_iteration_ignores_tol:
  "policy_iteration P nS nA gamma tol = policy_iteration P nS nA gamma tol'"
  by (simp add: policy_iteration_def)

text \<open>
  C4. The claim: every \<^verbatim>\<open>policy_evaluation\<close> sub-step of \<^verbatim>\<open>policy_iteration\<close> uses
  the caller's \<^verbatim>\<open>tol\<close>. The source calls \<^verbatim>\<open>policy_evaluation(P, nS, nA, policy, gamma)\<close>,
  which runs with the default \<open>1e-3\<close>. On \<open>chain_model\<close> with \<open>gamma = 1/2\<close> and
  \<open>tol = 10\<close>: an evaluation of the initial policy under \<open>tol = 10\<close> stops at
  \<open>[0, 0, 1, 0]\<close>, from which the improvement step moves to the policy \<open>[1, 0, 0, 0]\<close>,
  which is stable under \<open>tol = 10\<close>; the source evaluates under \<open>1/1000\<close> instead and
  returns the policy \<open>[0, 0, 0, 0]\<close>, as it does for every other \<open>tol\<close>.
\<close>

theorem policy_iteration_tol_not_inherited:
  "policy_iteration chain_model 4 2 (1 / 2) 10 = Some (Inr ([0, 0, 0, 0], [0, 0, 0, 0]))
   \<and> policy_evaluation chain_model 4 2 [0, 0, 0, 0] (1 / 2) 10 = Some (Inr [0, 0, 1, 0])
   \<and> policy_improvement chain_model 4 2 [0, 0, 1, 0] [0, 0, 0, 0] (1 / 2)
     = ([0, 0, 0, 0], Inr [1, 0, 0, 0])
   \<and> policy_evaluation chain_model 4 2 [1, 0, 0, 0] (1 / 2) 10
     = Some (Inr [1 / 10, 0, 1, 0])
   \<and> policy_improvement chain_model 4 2 [1 / 10, 0, 1, 0] [1, 0, 0, 0] (1 / 2)
     = ([1, 0, 0, 0], Inr [1, 0, 0, 0])"
  by code_simp

subsection \<open>The value-iteration sweep\<close>

text \<open>
  C7. The claim: a sweep computes exactly \<open>V\<^sub>k\<^sub>+\<^sub>1(s) = max\<^sub>a Q(s, a)\<close>, with no other
  transformation. The source takes the elementwise maximum of that with a fresh array of
  zeros. On \<open>neg_model\<close> with \<open>gamma = 1/2\<close> the only Q-value of the first sweep is
  \<open>-1\<close>; the sweep produces \<open>0\<close>, the loop stops there and the policy is extracted
  from \<open>[0]\<close>.
\<close>

theorem value_iteration_sweep_clamps_at_zero:
  "p_to_tensor neg_model 1 1 = Inr ([[1]], [[0]], [[- 1]])
   \<and> q_values [[1]] [[0]] [[- 1]] (1 / 2) [0] = Inr [[- 1]]
   \<and> np_max_axis1 1 [[- 1]] = Inr [- 1]
   \<and> vi_sweep 1 1 [[1]] [[0]] [[- 1]] (1 / 2) [0] = Inr [0]
   \<and> vi_loop 1 1 [[1]] [[0]] [[- 1]] (1 / 2) (1 / 1000) [0] = Some (Inr [0])"
  by code_simp

subsection \<open>Which exceptions a call can raise\<close>

text \<open>
  Every exception of the model is one of the three Python exceptions; the lemmas follow
  the call structure of the source.
\<close>

lemma traverse_error:
  assumes "\<And>x e. f x = Inl e \<Longrightarrow> e \<in> S" and "traverse f xs = Inl e"
  shows "e \<in> S"
  using assms(2)
proof (induction xs)
  case Nil
  then show ?case by simp
next
  case (Cons x xs)
  show ?case
  proof (cases "f x")
    case (Inl e')
    with Cons.prems have "e' = e" by simp
    with Inl assms(1) show ?thesis by blast
  next
    case (Inr y)
    with Cons.prems have "traverse f xs = Inl e"
      by (simp split: sum.splits)
    then show ?thesis by (rule Cons.IH)
  qed
qed

lemma np_getitem_error: "np_getitem xs i = Inl e \<Longrightarrow> e = IndexError"
  by (simp add: np_getitem_def Let_def split: if_splits)

lemma traverse_getitem_error:
  assumes "traverse (np_getitem xs) idx = Inl e"
  shows "e = IndexError"
proof -
  have "e \<in> {IndexError}"
  proof (rule traverse_error [OF _ assms])
    fix x e' assume "np_getitem xs x = Inl e'"
    then show "e' \<in> {IndexError}" by (simp add: np_getitem_error)
  qed
  then show ?thesis by simp
qed

lemma np_take_error: "np_take a idx = Inl e \<Longrightarrow> e = IndexError"
  unfolding np_take_def by (rule traverse_getitem_error)

lemma broadcast2_error: "broadcast2 f xs ys = Inl e \<Longrightarrow> e = ValueError"
  by (simp add: broadcast2_def split: if_splits)

lemma norm_inf_error: "norm_inf x = Inl e \<Longrightarrow> e = ValueError"
  by (simp add: norm_inf_def split: if_splits)

lemma linf_dist_error: "linf_dist V W = Inl e \<Longrightarrow> e = ValueError"
  unfolding linf_dist_def
  by (cases "broadcast2 (-) V W") (simp_all add: broadcast2_error norm_inf_error)

lemma first_outcome_error: "first_outcome P s a = Inl e \<Longrightarrow> e = KeyError \<or> e = IndexError"
  by (simp add: first_outcome_def split: option.splits list.splits)

lemma p_to_tensor_error:
  assumes "p_to_tensor P nS nA = Inl e"
  shows "e = KeyError \<or> e = IndexError"
proof -
  have inner: "e' \<in> {KeyError, IndexError}"
    if "traverse (\<lambda>a. first_outcome P s a) [0..<nA] = Inl e'" for s e'
  proof (rule traverse_error [OF _ that])
    fix x e'' assume "first_outcome P s x = Inl e''"
    then show "e'' \<in> {KeyError, IndexError}" using first_outcome_error by blast
  qed
  from assms have "traverse (\<lambda>s. traverse (\<lambda>a. first_outcome P s a) [0..<nA]) [0..<nS] = Inl e"
    by (simp add: p_to_tensor_def split: sum.splits)
  then have "e \<in> {KeyError, IndexError}"
    by (rule traverse_error [rotated]) (rule inner)
  then show ?thesis by simp
qed

lemma pe_sweep_error: "pe_sweep pp rp sp gamma V = Inl e \<Longrightarrow> e = IndexError"
  unfolding pe_sweep_def
  by (cases "traverse (np_getitem V) sp") (simp_all add: traverse_getitem_error)

lemma q_values_error:
  assumes "q_values prob s_next r gamma V = Inl e"
  shows "e = IndexError"
proof -
  from assms have "traverse (traverse (np_getitem V)) s_next = Inl e"
    by (simp add: q_values_def split: sum.splits)
  then have "e \<in> {IndexError}"
    by (rule traverse_error [rotated]) (simp add: traverse_getitem_error)
  then show ?thesis by simp
qed

lemma vi_sweep_error:
  assumes "vi_sweep nS nA prob s_next r gamma V = Inl e"
  shows "e = IndexError \<or> e = ValueError"
proof (cases "q_values prob s_next r gamma V")
  case (Inl e')
  with assms have "e' = e" by (simp add: vi_sweep_def)
  with Inl show ?thesis by (simp add: q_values_error)
next
  case (Inr Q)
  with assms show ?thesis
    by (simp add: vi_sweep_def np_max_axis1_def split: if_splits)
qed


lemma pe_loop_error:
  assumes "pe_loop pp rp sp gamma tol V = Some y"
  shows "\<forall>e. y = Inl e \<longrightarrow> e = IndexError \<or> e = ValueError"
proof (rule pe_loop.raw_induct
    [where P = "\<lambda>pp rp sp gamma tol V y. \<forall>e. y = Inl e \<longrightarrow> e = IndexError \<or> e = ValueError",
      OF _ assms])
  fix loop pp rp sp gamma tol V and y :: "error + real list"
  assume IH: "\<And>pp rp sp gamma tol V y. loop pp rp sp gamma tol V = Some y
      \<Longrightarrow> \<forall>e. y = Inl e \<longrightarrow> e = IndexError \<or> e = ValueError"
    and step: "(case pe_sweep pp rp sp gamma V of
        Inl e \<Rightarrow> Some (Inl e)
      | Inr V_new \<Rightarrow>
          (case linf_dist V V_new of
             Inl e \<Rightarrow> Some (Inl e)
           | Inr d \<Rightarrow>
               if d < tol then Some (Inr V_new)
               else loop pp rp sp gamma tol V_new)) = Some y"
  show "\<forall>e. y = Inl e \<longrightarrow> e = IndexError \<or> e = ValueError"
  proof (cases "pe_sweep pp rp sp gamma V")
    case (Inl e)
    with step show ?thesis by (auto simp: pe_sweep_error)
  next
    case sweep: (Inr V_new)
    show ?thesis
    proof (cases "linf_dist V V_new")
      case (Inl e)
      with sweep step show ?thesis by (auto simp: linf_dist_error)
    next
      case (Inr d)
      show ?thesis
      proof (cases "d < tol")
        case True
        with sweep Inr step show ?thesis by auto
      next
        case False
        with sweep Inr step have "loop pp rp sp gamma tol V_new = Some y" by simp
        from IH [OF this] show ?thesis by blast
      qed
    qed
  qed
qed

lemma vi_loop_error:
  assumes "vi_loop nS nA prob s_next r gamma tol V = Some y"
  shows "\<forall>e. y = Inl e \<longrightarrow> e = IndexError \<or> e = ValueError"
proof (rule vi_loop.raw_induct
    [where P = "\<lambda>nS nA prob s_next r gamma tol V y.
        \<forall>e. y = Inl e \<longrightarrow> e = IndexError \<or> e = ValueError", OF _ assms])
  fix loop nS nA prob s_next r gamma tol V and y :: "error + real list"
  assume IH: "\<And>nS nA prob s_next r gamma tol V y. loop nS nA prob s_next r gamma tol V = Some y
      \<Longrightarrow> \<forall>e. y = Inl e \<longrightarrow> e = IndexError \<or> e = ValueError"
    and step: "(case vi_sweep nS nA prob s_next r gamma V of
        Inl e \<Rightarrow> Some (Inl e)
      | Inr V_new \<Rightarrow>
          (case linf_dist V V_new of
             Inl e \<Rightarrow> Some (Inl e)
           | Inr d \<Rightarrow>
               if d < tol then Some (Inr V_new)
               else loop nS nA prob s_next r gamma tol V_new)) = Some y"
  show "\<forall>e. y = Inl e \<longrightarrow> e = IndexError \<or> e = ValueError"
  proof (cases "vi_sweep nS nA prob s_next r gamma V")
    case (Inl e)
    with step vi_sweep_error [OF Inl] show ?thesis by auto
  next
    case sweep: (Inr V_new)
    show ?thesis
    proof (cases "linf_dist V V_new")
      case (Inl e)
      with sweep step show ?thesis by (auto simp: linf_dist_error)
    next
      case (Inr d)
      show ?thesis
      proof (cases "d < tol")
        case True
        with sweep Inr step show ?thesis by auto
      next
        case False
        with sweep Inr step have "loop nS nA prob s_next r gamma tol V_new = Some y" by simp
        from IH [OF this] show ?thesis by blast
      qed
    qed
  qed
qed

lemma policy_evaluation_error:
  assumes "policy_evaluation P nS nA policy gamma tol = Some (Inl e)"
  shows "e = KeyError \<or> e = IndexError \<or> e = ValueError"
proof (cases "p_to_tensor P nS nA")
  case (Inl e')
  with assms p_to_tensor_error [OF Inl] show ?thesis
    by (auto simp: policy_evaluation_def)
next
  case (Inr t)
  obtain prob s_next r where t: "t = (prob, s_next, r)" by (cases t) auto
  show ?thesis
  proof (cases "broadcast2 (+) (map (\<lambda>s. int nA * int s) [0..<nS]) policy")
    case (Inl e')
    with assms Inr t broadcast2_error [OF Inl] show ?thesis
      by (simp add: policy_evaluation_def)
  next
    case idx: (Inr take_indices)
    show ?thesis
    proof (cases "np_take prob take_indices")
      case (Inl e')
      with assms Inr t idx np_take_error [OF Inl] show ?thesis
        by (simp add: policy_evaluation_def)
    next
      case pp: (Inr prob_pi)
      show ?thesis
      proof (cases "np_take s_next take_indices")
        case (Inl e')
        with assms Inr t idx pp np_take_error [OF Inl] show ?thesis
          by (simp add: policy_evaluation_def)
      next
        case sp: (Inr s_next_pi)
        show ?thesis
        proof (cases "np_take r take_indices")
          case (Inl e')
          with assms Inr t idx pp sp np_take_error [OF Inl] show ?thesis
            by (simp add: policy_evaluation_def)
        next
          case rp: (Inr r_pi)
          with assms Inr t idx pp sp
          have "pe_loop prob_pi r_pi s_next_pi gamma tol (replicate nS 0) = Some (Inl e)"
            by (simp add: policy_evaluation_def)
          from pe_loop_error [OF this] show ?thesis by simp
        qed
      qed
    qed
  qed
qed

lemma policy_improvement_error:
  assumes "snd (policy_improvement P nS nA V policy gamma) = Inl e"
  shows "e = KeyError \<or> e = IndexError \<or> e = ValueError"
proof (cases "p_to_tensor P nS nA")
  case (Inl e')
  with assms p_to_tensor_error [OF Inl] show ?thesis
    by (auto simp: policy_improvement_def)
next
  case (Inr t)
  obtain prob s_next r where t: "t = (prob, s_next, r)" by (cases t) auto
  show ?thesis
  proof (cases "q_values prob s_next r gamma V")
    case (Inl e')
    with assms Inr t q_values_error [OF Inl] show ?thesis
      by (simp add: policy_improvement_def)
  next
    case q: (Inr Q)
    with assms Inr t show ?thesis
      by (simp add: policy_improvement_def np_argmax_axis1_def split: if_splits)
  qed
qed

lemma pi_loop_error:
  assumes "pi_loop P nS nA gamma V policy = Some y"
  shows "\<forall>e. y = Inl e \<longrightarrow> e = KeyError \<or> e = IndexError \<or> e = ValueError"
proof (rule pi_loop.raw_induct
    [where Pa = "\<lambda>args y.
        \<forall>e. y = Inl e \<longrightarrow> e = KeyError \<or> e = IndexError \<or> e = ValueError", OF _ assms])
  fix loop P nS nA gamma V policy and y :: "error + real list \<times> int list"
  assume IH: "\<And>P nS nA gamma V policy y. loop P nS nA gamma V policy = Some y
      \<Longrightarrow> \<forall>e. y = Inl e \<longrightarrow> e = KeyError \<or> e = IndexError \<or> e = ValueError"
    and step: "(case policy_improvement P nS nA V policy gamma of
        (policy, Inl e) \<Rightarrow> Some (Inl e)
      | (policy, Inr policy_new) \<Rightarrow>
          (case policy_evaluation P nS nA policy_new gamma (1 / 1000) of
             None \<Rightarrow> None
           | Some (Inl e) \<Rightarrow> Some (Inl e)
           | Some (Inr V_new) \<Rightarrow>
               if policy = policy_new then Some (Inr (V, policy))
               else loop P nS nA gamma V_new policy_new)) = Some y"
  obtain pol res where imp: "policy_improvement P nS nA V policy gamma = (pol, res)"
    by (cases "policy_improvement P nS nA V policy gamma") auto
  show "\<forall>e. y = Inl e \<longrightarrow> e = KeyError \<or> e = IndexError \<or> e = ValueError"
  proof (cases res)
    case (Inl e)
    with imp have "snd (policy_improvement P nS nA V policy gamma) = Inl e" by simp
    from policy_improvement_error [OF this] imp Inl step show ?thesis by auto
  next
    case new: (Inr policy_new)
    show ?thesis
    proof (cases "policy_evaluation P nS nA policy_new gamma (1 / 1000)")
      case None
      with imp new step show ?thesis by simp
    next
      case (Some ev)
      show ?thesis
      proof (cases ev)
        case (Inl e)
        with Some policy_evaluation_error [of P nS nA policy_new gamma "1 / 1000" e]
          imp new step show ?thesis by auto
      next
        case (Inr V_new)
        show ?thesis
        proof (cases "pol = policy_new")
          case True
          with Some Inr imp new step show ?thesis by auto
        next
          case False
          with Some Inr imp new step have "loop P nS nA gamma V_new policy_new = Some y"
            by simp
          from IH [OF this] show ?thesis by blast
        qed
      qed
    qed
  qed
qed


lemma policy_iteration_error:
  assumes "policy_iteration P nS nA gamma tol = Some (Inl e)"
  shows "e = KeyError \<or> e = IndexError \<or> e = ValueError"
proof (cases "policy_evaluation P nS nA (replicate nS 0) gamma (1 / 1000)")
  case None
  with assms show ?thesis by (simp add: policy_iteration_def)
next
  case (Some ev)
  show ?thesis
  proof (cases ev)
    case (Inl e')
    with Some assms policy_evaluation_error [of P nS nA "replicate nS 0" gamma "1 / 1000" e']
    show ?thesis by (simp add: policy_iteration_def)
  next
    case (Inr V)
    show ?thesis
    proof (cases "pi_loop P nS nA gamma V (replicate nS 0)")
      case None
      with Some Inr assms show ?thesis by (simp add: policy_iteration_def)
    next
      case lp: (Some y)
      with Some Inr assms have "y = Inl e"
        by (cases y) (auto simp: policy_iteration_def)
      with pi_loop_error [OF lp] show ?thesis by simp
    qed
  qed
qed

lemma value_iteration_error:
  assumes "value_iteration P nS nA gamma tol = Some (Inl e)"
  shows "e = KeyError \<or> e = IndexError \<or> e = ValueError"
proof (cases "p_to_tensor P nS nA")
  case (Inl e')
  with assms p_to_tensor_error [OF Inl] show ?thesis
    by (auto simp: value_iteration_def)
next
  case (Inr t)
  obtain prob s_next r where t: "t = (prob, s_next, r)" by (cases t) auto
  show ?thesis
  proof (cases "vi_loop nS nA prob s_next r gamma tol (replicate nS 0)")
    case None
    with Inr t assms show ?thesis by (simp add: value_iteration_def)
  next
    case lp: (Some y)
    show ?thesis
    proof (cases y)
      case (Inl e')
      with lp Inr t assms vi_loop_error [OF lp] show ?thesis
        by (auto simp: value_iteration_def)
    next
      case V: (Inr V_new)
      obtain pol res where imp:
        "policy_improvement P nS nA V_new (replicate nS 0) gamma = (pol, res)"
        by (cases "policy_improvement P nS nA V_new (replicate nS 0) gamma") auto
      with lp V Inr t assms have "res = Inl e"
        by (cases res) (auto simp: value_iteration_def)
      with imp have "snd (policy_improvement P nS nA V_new (replicate nS 0) gamma) = Inl e"
        by simp
      then show ?thesis by (rule policy_improvement_error)
    qed
  qed
qed

subsection \<open>Purity of \<^verbatim>\<open>policy_improvement\<close>\<close>

text \<open>
  C9. \<^verbatim>\<open>policy_improvement\<close> is a function of the model, the value function and
  \<open>gamma\<close>: two calls that differ only in the prior policy raise or return the same,
  and the caller's policy array holds on return what it held on entry.
\<close>

theorem policy_improvement_pure:
  "snd (policy_improvement P nS nA V policy gamma)
     = snd (policy_improvement P nS nA V policy' gamma)
   \<and> fst (policy_improvement P nS nA V policy gamma) = policy"
  by (simp add: policy_improvement_def)

subsection \<open>Validation of \<open>gamma\<close> and \<open>tol\<close>\<close>

text \<open>
  C5, as stated, fails: a call with \<open>gamma\<close> outside \<open>[0, 1)\<close> is not rejected. With
  \<open>gamma = 2\<close> the three functions run their loops on \<open>chain_model\<close> and return.
\<close>

theorem invalid_gamma_not_rejected:
  "policy_evaluation chain_model 4 2 [0, 0, 0, 0] 2 (1 / 1000) = Some (Inr [4, 2, 1, 0])
   \<and> policy_iteration chain_model 4 2 2 (1 / 1000) = Some (Inr ([0, 0, 0, 0], [0, 0, 0, 0]))
   \<and> value_iteration chain_model 4 2 2 (1 / 1000) = Some (Inr ([0, 0, 0, 0], [0, 0, 0, 0]))"
  by code_simp

text \<open>
  C5, amended: the source validates neither \<open>gamma\<close> nor \<open>tol\<close>. No call of
  \<^verbatim>\<open>policy_evaluation\<close>, \<^verbatim>\<open>policy_iteration\<close> or \<^verbatim>\<open>value_iteration\<close> is rejected
  with an InvalidConfiguration error, whatever \<open>gamma\<close> and \<open>tol\<close> are (in particular
  not for \<open>gamma\<close> in \<open>[0, 1)\<close> and \<open>tol > 0\<close>).
\<close>

theorem configuration_never_validated:
  "policy_evaluation P nS nA policy gamma tol \<noteq> Some (Inl InvalidConfiguration)
   \<and> policy_iteration P nS nA gamma tol \<noteq> Some (Inl InvalidConfiguration)
   \<and> value_iteration P nS nA gamma tol \<noteq> Some (Inl InvalidConfiguration)"
  using policy_evaluation_error [of P nS nA policy gamma tol InvalidConfiguration]
    policy_iteration_error [of P nS nA gamma tol InvalidConfiguration]
    value_iteration_error [of P nS nA gamma tol InvalidConfiguration]
  by auto

subsection \<open>Successful traversals\<close>

lemma traverse_Inr_D:
  "traverse f xs = Inr ys \<Longrightarrow> ys = map (\<lambda>x. projr (f x)) xs \<and> (\<forall>x \<in> set xs. \<exists>y. f x = Inr y)"
proof (induction xs arbitrary: ys)
  case Nil
  then show ?case by simp
next
  case (Cons x xs)
  from Cons.prems obtain y ys' where fx: "f x = Inr y" and rest: "traverse f xs = Inr ys'"
    and ys: "ys = y # ys'"
    by (auto split: sum.splits)
  from Cons.IH [OF rest] fx ys show ?case by simp
qed

lemma traverse_Inr_I:
  "(\<forall>x \<in> set xs. \<exists>y. f x = Inr y) \<Longrightarrow> traverse f xs = Inr (map (\<lambda>x. projr (f x)) xs)"
  by (induction xs) auto

lemma traverse_eq_map:
  assumes "\<And>x. x \<in> set xs \<Longrightarrow> f x = Inr (g x)"
  shows "traverse f xs = Inr (map g xs)"
proof -
  have "traverse f xs = Inr (map (\<lambda>x. projr (f x)) xs)"
    by (rule traverse_Inr_I) (auto simp: assms)
  moreover have "map (\<lambda>x. projr (f x)) xs = map g xs"
    by (rule map_cong) (auto simp: assms)
  ultimately show ?thesis by simp
qed

lemma zipWith3_map:
  "zipWith3 f (map a xs) (map b xs) (map c xs) = map (\<lambda>x. f (a x) (b x) (c x)) xs"
  by (induction xs) (simp_all add: zipWith3_def)

subsection \<open>The tensors in terms of the model\<close>

lemma p_to_tensor_Inr_D:
  assumes "p_to_tensor P nS nA = Inr (prob, s_next, r)"
  shows "prob = map (\<lambda>s. map (prob_of P s) [0..<nA]) [0..<nS]"
    and "s_next = map (\<lambda>s. map (next_state P s) [0..<nA]) [0..<nS]"
    and "r = map (\<lambda>s. map (reward P s) [0..<nA]) [0..<nS]"
    and "\<forall>s \<in> set [0..<nS]. \<forall>a \<in> set [0..<nA]. \<exists>x. first_outcome P s a = Inr x"
proof -
  from assms obtain T where
    T: "traverse (\<lambda>s. traverse (\<lambda>a. first_outcome P s a) [0..<nA]) [0..<nS] = Inr T"
    and prob: "prob = map (map (\<lambda>(p, n, r, t). p)) T"
    and s_next: "s_next = map (map (\<lambda>(p, n, r, t). n)) T"
    and r: "r = map (map (\<lambda>(p, n, r, t). r)) T"
    by (auto simp: p_to_tensor_def split: sum.splits)
  from traverse_Inr_D [OF T]
  have T_eq: "T = map (\<lambda>s. projr (traverse (\<lambda>a. first_outcome P s a) [0..<nA])) [0..<nS]"
    and rows: "\<forall>s \<in> set [0..<nS]. \<exists>row. traverse (\<lambda>a. first_outcome P s a) [0..<nA] = Inr row"
    by auto
  have row_eq: "projr (traverse (\<lambda>a. first_outcome P s a) [0..<nA]) = map (the_outcome P s) [0..<nA]
      \<and> (\<forall>a \<in> set [0..<nA]. \<exists>x. first_outcome P s a = Inr x)"
    if "s \<in> set [0..<nS]" for s
  proof -
    from rows that obtain row where row: "traverse (\<lambda>a. first_outcome P s a) [0..<nA] = Inr row"
      by blast
    from traverse_Inr_D [OF row]
    have 1: "row = map (\<lambda>a. projr (first_outcome P s a)) [0..<nA]"
      and 2: "\<forall>a \<in> set [0..<nA]. \<exists>x. first_outcome P s a = Inr x" by auto
    have "map (\<lambda>a. projr (first_outcome P s a)) [0..<nA] = map (the_outcome P s) [0..<nA]"
    proof (rule map_cong [OF refl])
      fix a assume "a \<in> set [0..<nA]"
      with 2 obtain x where "first_outcome P s a = Inr x" by blast
      then show "projr (first_outcome P s a) = the_outcome P s a"
        by (simp add: the_outcome_def)
    qed
    with row 1 2 show ?thesis by simp
  qed
  have T_eq': "T = map (\<lambda>s. map (the_outcome P s) [0..<nA]) [0..<nS]"
    unfolding T_eq by (rule map_cong [OF refl]) (simp add: row_eq)
  show "prob = map (\<lambda>s. map (prob_of P s) [0..<nA]) [0..<nS]"
    by (simp add: prob T_eq' prob_of_def comp_def split_beta)
  show "s_next = map (\<lambda>s. map (next_state P s) [0..<nA]) [0..<nS]"
    by (simp add: s_next T_eq' next_state_def comp_def split_beta)
  show "r = map (\<lambda>s. map (reward P s) [0..<nA]) [0..<nS]"
    by (simp add: r T_eq' reward_def comp_def split_beta)
  show "\<forall>s \<in> set [0..<nS]. \<forall>a \<in> set [0..<nA]. \<exists>x. first_outcome P s a = Inr x"
    using row_eq by blast
qed

lemma p_to_tensor_Inr_I:
  assumes "\<forall>s \<in> set [0..<nS]. \<forall>a \<in> set [0..<nA]. \<exists>x. first_outcome P s a = Inr x"
  shows "p_to_tensor P nS nA =
    Inr (map (\<lambda>s. map (prob_of P s) [0..<nA]) [0..<nS],
         map (\<lambda>s. map (next_state P s) [0..<nA]) [0..<nS],
         map (\<lambda>s. map (reward P s) [0..<nA]) [0..<nS])"
proof -
  have inner: "traverse (\<lambda>a. first_outcome P s a) [0..<nA] = Inr (map (the_outcome P s) [0..<nA])"
    if "s \<in> set [0..<nS]" for s
  proof (rule traverse_eq_map)
    fix a assume "a \<in> set [0..<nA]"
    with assms that obtain x where "first_outcome P s a = Inr x" by blast
    then show "first_outcome P s a = Inr (the_outcome P s a)"
      by (simp add: the_outcome_def)
  qed
  have "traverse (\<lambda>s. traverse (\<lambda>a. first_outcome P s a) [0..<nA]) [0..<nS]
      = Inr (map (\<lambda>s. map (the_outcome P s) [0..<nA]) [0..<nS])"
    by (rule traverse_eq_map) (rule inner)
  then show ?thesis
    by (simp add: p_to_tensor_def prob_of_def next_state_def reward_def comp_def split_beta)
qed

lemma traverse2_Inr_D:
  assumes "traverse (traverse f) (map (\<lambda>s. map (g s) as) ss) = Inr Vn"
  shows "Vn = map (\<lambda>s. map (\<lambda>a. projr (f (g s a))) as) ss"
    and "\<forall>s \<in> set ss. \<forall>a \<in> set as. \<exists>y. f (g s a) = Inr y"
proof -
  from traverse_Inr_D [OF assms]
  have Vn: "Vn = map (\<lambda>row. projr (traverse f row)) (map (\<lambda>s. map (g s) as) ss)"
    and ok: "\<forall>row \<in> set (map (\<lambda>s. map (g s) as) ss). \<exists>y. traverse f row = Inr y"
    by auto
  have row: "projr (traverse f (map (g s) as)) = map (\<lambda>a. projr (f (g s a))) as
      \<and> (\<forall>a \<in> set as. \<exists>y. f (g s a) = Inr y)" if "s \<in> set ss" for s
  proof -
    from ok that obtain y where y: "traverse f (map (g s) as) = Inr y" by auto
    from traverse_Inr_D [OF y] y show ?thesis by (simp add: comp_def)
  qed
  show "Vn = map (\<lambda>s. map (\<lambda>a. projr (f (g s a))) as) ss"
    unfolding Vn map_map comp_def by (rule map_cong [OF refl]) (simp add: row)
  show "\<forall>s \<in> set ss. \<forall>a \<in> set as. \<exists>y. f (g s a) = Inr y"
    using row by blast
qed


lemma q_values_Inr_D:
  assumes t: "p_to_tensor P nS nA = Inr (prob, s_next, r)"
    and q: "q_values prob s_next r gamma V = Inr Q"
  shows "Q = map (\<lambda>s. map (q_value P gamma V s) [0..<nA]) [0..<nS]"
proof -
  note pt = p_to_tensor_Inr_D [OF t]
  from q obtain Vn where Vn: "traverse (traverse (np_getitem V)) s_next = Inr Vn"
    and Q: "Q = zipWith3 (zipWith3 (backup gamma)) prob r Vn"
    by (auto simp: q_values_def split: sum.splits)
  from Vn have Vn': "traverse (traverse (np_getitem V))
      (map (\<lambda>s. map (next_state P s) [0..<nA]) [0..<nS]) = Inr Vn"
    by (simp add: pt(2))
  note d = traverse2_Inr_D [OF Vn']
  have "Q = map (\<lambda>s. zipWith3 (backup gamma) (map (prob_of P s) [0..<nA])
      (map (reward P s) [0..<nA])
      (map (\<lambda>a. projr (np_getitem V (next_state P s a))) [0..<nA])) [0..<nS]"
    unfolding Q pt(1) pt(3) d(1) by (rule zipWith3_map)
  also have "\<dots> = map (\<lambda>s. map (q_value P gamma V s) [0..<nA]) [0..<nS]"
  proof (rule map_cong [OF refl])
    fix s assume s: "s \<in> set [0..<nS]"
    have "zipWith3 (backup gamma) (map (prob_of P s) [0..<nA]) (map (reward P s) [0..<nA])
        (map (\<lambda>a. projr (np_getitem V (next_state P s a))) [0..<nA])
      = map (\<lambda>a. backup gamma (prob_of P s a) (reward P s a)
          (projr (np_getitem V (next_state P s a)))) [0..<nA]"
      by (rule zipWith3_map)
    also have "\<dots> = map (q_value P gamma V s) [0..<nA]"
    proof (rule map_cong [OF refl])
      fix a assume "a \<in> set [0..<nA]"
      with d(2) s obtain y where "np_getitem V (next_state P s a) = Inr y" by blast
      then show "backup gamma (prob_of P s a) (reward P s a)
          (projr (np_getitem V (next_state P s a))) = q_value P gamma V s a"
        by (simp add: q_value_def)
    qed
    finally show "zipWith3 (backup gamma) (map (prob_of P s) [0..<nA]) (map (reward P s) [0..<nA])
        (map (\<lambda>a. projr (np_getitem V (next_state P s a))) [0..<nA])
      = map (q_value P gamma V s) [0..<nA]" .
  qed
  finally show ?thesis .
qed

subsection \<open>Multi-outcome pairs in \<^verbatim>\<open>p_to_tensor\<close>\<close>

lemma has_outcome_first_outcome:
  assumes "has_outcome P s a"
  shows "\<exists>Ps t rest. P s = Some Ps
    \<and> Ps a = Some ((prob_of P s a, next_state P s a, reward P s a, t) # rest)
    \<and> first_outcome P s a = Inr (prob_of P s a, next_state P s a, reward P s a, t)"
proof -
  from assms obtain Ps xs where Ps: "P s = Some Ps" and xs: "Ps a = Some xs" "xs \<noteq> []"
    by (auto simp: has_outcome_def split: option.splits)
  then obtain x rest where a: "Ps a = Some (x # rest)"
    by (cases xs) auto
  obtain p n r t where x: "x = (p, n, r, t)" by (cases x) auto
  from Ps a x have "first_outcome P s a = Inr (p, n, r, t)"
    by (simp add: first_outcome_def)
  then have "prob_of P s a = p" "next_state P s a = n" "reward P s a = r"
    by (simp_all add: prob_of_def next_state_def reward_def the_outcome_def)
  with Ps a x show ?thesis by (simp add: first_outcome_def)
qed

text \<open>
  C3, as stated, fails: on a pair with two outcomes the adapter neither aggregates nor
  raises. In \<open>two_outcome_model\<close> the pair \<open>(0, 0)\<close> has the outcomes
  \<open>(1/2, 0, 1)\<close> and \<open>(1/2, 1, 3)\<close>; the adapter returns probability \<open>1/2\<close>, next
  state \<open>0\<close> and reward \<open>1\<close> for it, exactly what it returns for the model in which the
  second outcome is deleted.
\<close>

theorem first_outcome_used_silently:
  "p_to_tensor two_outcome_model 2 1 = Inr ([[1 / 2], [1]], [[0], [1]], [[1], [0]])
   \<and> p_to_tensor first_only_model 2 1 = Inr ([[1 / 2], [1]], [[0], [1]], [[1], [0]])"
  by code_simp

text \<open>
  C3, amended: the adapter reads element 0 of every outcome list and nothing else. It
  never fails with a ModelShapeError; when every pair \<open>(s, a)\<close> with \<open>s < nS\<close> and
  \<open>a < nA\<close> has a non-empty outcome list it succeeds, and \<open>prob\<close>, \<open>s_next\<close> and
  \<open>r\<close> hold, for every pair, the probability, next state and reward of the first
  outcome of its list, whatever follows it.
\<close>

theorem p_to_tensor_reads_first_outcome:
  "p_to_tensor P nS nA \<noteq> Inl ModelShapeError
   \<and> ((\<forall>s \<in> set [0..<nS]. \<forall>a \<in> set [0..<nA]. has_outcome P s a) \<longrightarrow>
        p_to_tensor P nS nA =
          Inr (map (\<lambda>s. map (prob_of P s) [0..<nA]) [0..<nS],
               map (\<lambda>s. map (next_state P s) [0..<nA]) [0..<nS],
               map (\<lambda>s. map (reward P s) [0..<nA]) [0..<nS])
        \<and> (\<forall>s \<in> set [0..<nS]. \<forall>a \<in> set [0..<nA]. \<exists>Ps t rest. P s = Some Ps
              \<and> Ps a = Some ((prob_of P s a, next_state P s a, reward P s a, t) # rest)))"
proof (intro conjI impI)
  show "p_to_tensor P nS nA \<noteq> Inl ModelShapeError"
    using p_to_tensor_error [of P nS nA ModelShapeError] by auto
next
  assume h: "\<forall>s \<in> set [0..<nS]. \<forall>a \<in> set [0..<nA]. has_outcome P s a"
  have "\<forall>s \<in> set [0..<nS]. \<forall>a \<in> set [0..<nA]. \<exists>x. first_outcome P s a = Inr x"
    using h has_outcome_first_outcome by blast
  then show "p_to_tensor P nS nA =
          Inr (map (\<lambda>s. map (prob_of P s) [0..<nA]) [0..<nS],
               map (\<lambda>s. map (next_state P s) [0..<nA]) [0..<nS],
               map (\<lambda>s. map (reward P s) [0..<nA]) [0..<nS])"
    by (rule p_to_tensor_Inr_I)
next
  assume h: "\<forall>s \<in> set [0..<nS]. \<forall>a \<in> set [0..<nA]. has_outcome P s a"
  show "\<forall>s \<in> set [0..<nS]. \<forall>a \<in> set [0..<nA]. \<exists>Ps t rest. P s = Some Ps
              \<and> Ps a = Some ((prob_of P s a, next_state P s a, reward P s a, t) # rest)"
    using h has_outcome_first_outcome by blast
qed

theorem p_to_tensor_reads_first_outcome_witness:
  "has_outcome two_outcome_model 0 0 \<and> has_outcome two_outcome_model 1 0
   \<and> p_to_tensor two_outcome_model 2 1 =
       Inr (map (\<lambda>s. map (prob_of two_outcome_model s) [0..<1]) [0..<2],
            map (\<lambda>s. map (next_state two_outcome_model s) [0..<1]) [0..<2],
            map (\<lambda>s. map (reward two_outcome_model s) [0..<1]) [0..<2])
   \<and> prob_of two_outcome_model 0 0 = 1 / 2
   \<and> next_state two_outcome_model 0 0 = 0
   \<and> reward two_outcome_model 0 0 = 1"
proof -
  have h0: "has_outcome two_outcome_model 0 0" and h1: "has_outcome two_outcome_model 1 0"
    by code_simp+
  have h: "\<forall>s \<in> set [0..<2]. \<forall>a \<in> set [0..<1]. has_outcome two_outcome_model s a"
  proof (intro ballI)
    fix s a :: nat
    assume "s \<in> set [0..<2]" "a \<in> set [0..<1]"
    then have "(s = 0 \<or> s = 1) \<and> a = 0" by auto
    with h0 h1 show "has_outcome two_outcome_model s a" by auto
  qed
  have v: "prob_of two_outcome_model 0 0 = 1 / 2" "next_state two_outcome_model 0 0 = 0"
    "reward two_outcome_model 0 0 = 1"
    by code_simp+
  from p_to_tensor_reads_first_outcome [of two_outcome_model 2 1] h h0 h1 v
  show ?thesis by blast
qed

subsection \<open>Tie-breaking in \<^verbatim>\<open>policy_improvement\<close>\<close>

lemma argmax_scan_first_max:
  assumes "ys = pre @ xs" "length pre = i" "mi < i" "ys ! mi = mp"
    "\<forall>b<i. ys ! b \<le> mp" "\<forall>b<mi. ys ! b < mp"
  shows "argmax_scan xs i mp mi < length ys
    \<and> (\<forall>b<length ys. ys ! b \<le> ys ! argmax_scan xs i mp mi)
    \<and> (\<forall>b<argmax_scan xs i mp mi. ys ! b < ys ! argmax_scan xs i mp mi)"
  using assms
proof (induction xs arbitrary: pre i mp mi)
  case Nil
  then show ?case by simp
next
  case (Cons x xs)
  have ysi: "ys ! i = x" using Cons.prems(1,2) by (simp add: nth_append)
  have split: "ys = (pre @ [x]) @ xs" "length (pre @ [x]) = Suc i"
    using Cons.prems(1,2) by simp_all
  show ?case
  proof (cases "mp < x")
    case True
    have a: "\<forall>b<Suc i. ys ! b \<le> x"
      using Cons.prems(5) True ysi by (auto simp: less_Suc_eq intro: order.trans less_imp_le)
    have b: "\<forall>b<i. ys ! b < x"
      using Cons.prems(5) True by (auto intro: le_less_trans)
    from Cons.IH [OF split _ ysi a b] True show ?thesis by simp
  next
    case False
    have a: "\<forall>b<Suc i. ys ! b \<le> mp"
      using Cons.prems(5) False ysi by (auto simp: less_Suc_eq)
    have m: "mi < Suc i" using Cons.prems(3) by simp
    from Cons.IH [OF split m Cons.prems(4) a Cons.prems(6)] False show ?thesis by simp
  qed
qed

lemma np_argmax_first_max:
  assumes "xs \<noteq> []"
  shows "np_argmax xs < length xs
    \<and> (\<forall>b<length xs. xs ! b \<le> xs ! np_argmax xs)
    \<and> (\<forall>b<np_argmax xs. xs ! b < xs ! np_argmax xs)"
proof -
  from assms obtain x rest where xs: "xs = x # rest" by (cases xs) auto
  have "argmax_scan rest 1 x 0 < length xs
    \<and> (\<forall>b<length xs. xs ! b \<le> xs ! argmax_scan rest 1 x 0)
    \<and> (\<forall>b<argmax_scan rest 1 x 0. xs ! b < xs ! argmax_scan rest 1 x 0)"
    by (rule argmax_scan_first_max [where pre = "[x]"]) (simp_all add: xs)
  then show ?thesis by (simp add: np_argmax_def xs)
qed

text \<open>
  C8. Whenever \<^verbatim>\<open>policy_improvement\<close> returns a policy, the action it holds for a
  state \<open>s < nS\<close> is an action \<open>a < nA\<close> whose Q-value is maximal and strictly greater
  than the Q-value of every action of lower index: the lowest-indexed maximising action.
  The model is a function, so two runs on the same arguments agree; the random
  tie-break of the source is commented out.
\<close>

theorem policy_improvement_lowest_maximizer:
  assumes "snd (policy_improvement P nS nA V policy gamma) = Inr new_policy"
    and "s < nS"
  shows "\<exists>a<nA. new_policy ! s = int a
    \<and> (\<forall>b<nA. q_value P gamma V s b \<le> q_value P gamma V s a)
    \<and> (\<forall>b<a. q_value P gamma V s b < q_value P gamma V s a)"
proof -
  from assms(1) obtain prob s_next r Q where t: "p_to_tensor P nS nA = Inr (prob, s_next, r)"
    and q: "q_values prob s_next r gamma V = Inr Q"
    and am: "np_argmax_axis1 nA Q = Inr new_policy"
    by (auto simp: policy_improvement_def split: sum.splits)
  from am have nA: "0 < nA" and np: "new_policy = map (\<lambda>row. int (np_argmax row)) Q"
    by (auto simp: np_argmax_axis1_def split: if_splits)
  note Q = q_values_Inr_D [OF t q]
  define row where "row = map (q_value P gamma V s) [0..<nA]"
  have len: "length row = nA" by (simp add: row_def)
  have nth: "row ! b = q_value P gamma V s b" if "b < nA" for b
    using that by (simp add: row_def)
  from Q assms(2) have Qs: "Q ! s = row" by (simp add: row_def)
  from Q assms(2) np have ns: "new_policy ! s = int (np_argmax row)" by (simp add: row_def)
  from nA len have "row \<noteq> []" by auto
  from np_argmax_first_max [OF this] len
  have lt: "np_argmax row < nA"
    and ge: "\<And>b. b < nA \<Longrightarrow> row ! b \<le> row ! np_argmax row"
    and gt: "\<And>b. b < np_argmax row \<Longrightarrow> row ! b < row ! np_argmax row"
    by auto
  have "q_value P gamma V s b \<le> q_value P gamma V s (np_argmax row)" if "b < nA" for b
    using ge [OF that] nth [OF that] nth [OF lt] by simp
  moreover have "q_value P gamma V s b < q_value P gamma V s (np_argmax row)"
    if "b < np_argmax row" for b
  proof -
    from that lt have "b < nA" by simp
    with gt [OF that] nth [OF lt] nth [of b] show ?thesis by simp
  qed
  ultimately show ?thesis using lt ns by blast
qed

theorem policy_improvement_lowest_maximizer_witness:
  "snd (policy_improvement chain_model 4 2 [0, 0, 1, 0] [0, 0, 0, 0] (1 / 2)) = Inr [1, 0, 0, 0]
   \<and> (1::nat) < 4
   \<and> q_value chain_model (1 / 2) [0, 0, 1, 0] 1 0 = q_value chain_model (1 / 2) [0, 0, 1, 0] 1 1
   \<and> (\<exists>a<2. [1, 0, 0, 0] ! 1 = int a
        \<and> (\<forall>b<2. q_value chain_model (1 / 2) [0, 0, 1, 0] 1 b
                    \<le> q_value chain_model (1 / 2) [0, 0, 1, 0] 1 a)
        \<and> (\<forall>b<a. q_value chain_model (1 / 2) [0, 0, 1, 0] 1 b
                    < q_value chain_model (1 / 2) [0, 0, 1, 0] 1 a))"
proof -
  have h1: "snd (policy_improvement chain_model 4 2 [0, 0, 1, 0] [0, 0, 0, 0] (1 / 2))
      = Inr [1, 0, 0, 0]"
    by code_simp
  have h2: "(1::nat) < 4" by simp
  have tie: "q_value chain_model (1 / 2) [0, 0, 1, 0] 1 0
      = q_value chain_model (1 / 2) [0, 0, 1, 0] 1 1"
    by code_simp
  from policy_improvement_lowest_maximizer [OF h1 h2] h1 h2 tie
  show ?thesis by blast
qed

subsection \<open>Non-negative iterates of \<^verbatim>\<open>value_iteration\<close>\<close>

lemma vi_sweep_Inr_D:
  assumes "vi_sweep nS nA prob s_next r gamma V = Inr V'"
  shows "\<exists>Q. q_values prob s_next r gamma V = Inr Q \<and> 0 < nA
    \<and> V' = map2 max (replicate nS 0) (map amax Q)"
  using assms
  by (auto simp: vi_sweep_def Let_def np_max_axis1_def split: sum.splits if_splits)

lemma map2_max_zero_nonneg: "\<forall>x \<in> set (map2 max (replicate n (0::real)) m). 0 \<le> x"
  by (auto simp: set_zip)

lemma map2_max_zero_eq:
  "length m = n \<Longrightarrow> map2 max (replicate n (0::real)) m = map (max 0) m"
  by (rule nth_equalityI) simp_all

lemma vi_sweep_nonneg:
  "vi_sweep nS nA prob s_next r gamma V = Inr V' \<Longrightarrow> \<forall>x \<in> set V'. 0 \<le> x"
  using vi_sweep_Inr_D map2_max_zero_nonneg by blast

lemma vi_iterate_nonneg:
  "vi_iterate nS nA prob s_next r gamma k = Inr V' \<Longrightarrow> \<forall>x \<in> set V'. 0 \<le> x"
proof (cases k)
  case 0
  assume "vi_iterate nS nA prob s_next r gamma k = Inr V'"
  with 0 show ?thesis by auto
next
  case (Suc j)
  assume "vi_iterate nS nA prob s_next r gamma k = Inr V'"
  with Suc obtain V where "vi_sweep nS nA prob s_next r gamma V = Inr V'"
    by (auto split: sum.splits)
  then show ?thesis by (rule vi_sweep_nonneg)
qed

lemma vi_loop_nonneg:
  assumes "vi_loop nS nA prob s_next r gamma tol V = Some y"
  shows "\<forall>V'. y = Inr V' \<longrightarrow> (\<forall>x \<in> set V'. 0 \<le> x)"
proof (rule vi_loop.raw_induct
    [where P = "\<lambda>nS nA prob s_next r gamma tol V y.
        \<forall>V'. y = Inr V' \<longrightarrow> (\<forall>x \<in> set V'. 0 \<le> x)", OF _ assms])
  fix loop nS nA prob s_next r gamma tol V and y :: "error + real list"
  assume IH: "\<And>nS nA prob s_next r gamma tol V y. loop nS nA prob s_next r gamma tol V = Some y
      \<Longrightarrow> \<forall>V'. y = Inr V' \<longrightarrow> (\<forall>x \<in> set V'. 0 \<le> x)"
    and step: "(case vi_sweep nS nA prob s_next r gamma V of
        Inl e \<Rightarrow> Some (Inl e)
      | Inr V_new \<Rightarrow>
          (case linf_dist V V_new of
             Inl e \<Rightarrow> Some (Inl e)
           | Inr d \<Rightarrow>
               if d < tol then Some (Inr V_new)
               else loop nS nA prob s_next r gamma tol V_new)) = Some y"
  show "\<forall>V'. y = Inr V' \<longrightarrow> (\<forall>x \<in> set V'. 0 \<le> x)"
  proof (cases "vi_sweep nS nA prob s_next r gamma V")
    case (Inl e)
    with step show ?thesis by auto
  next
    case sweep: (Inr V_new)
    show ?thesis
    proof (cases "linf_dist V V_new")
      case (Inl e)
      with sweep step show ?thesis by auto
    next
      case (Inr d)
      show ?thesis
      proof (cases "d < tol")
        case True
        with sweep Inr step have "y = Inr V_new" by simp
        with vi_sweep_nonneg [OF sweep] show ?thesis by simp
      next
        case False
        with sweep Inr step have "loop nS nA prob s_next r gamma tol V_new = Some y" by simp
        from IH [OF this] show ?thesis .
      qed
    qed
  qed
qed

text \<open>
  C10. Every sweep of \<^verbatim>\<open>value_iteration\<close> produces \<open>max(0, max\<^sub>a Q(s, a))\<close> for every
  state; every iterate \<open>V\<^sub>k\<close> is elementwise non-negative, whatever the rewards are, and
  so is the iterate the loop leaves with, from which the policy is extracted.
\<close>

theorem value_iteration_iterates_nonnegative:
  "(q_values prob s_next r gamma V = Inr Q \<and> length Q = nS \<and> 0 < nA \<longrightarrow>
      vi_sweep nS nA prob s_next r gamma V = Inr (map (\<lambda>row. max 0 (amax row)) Q))
   \<and> (vi_iterate nS nA prob s_next r gamma k = Inr V' \<longrightarrow> (\<forall>x \<in> set V'. 0 \<le> x))
   \<and> (vi_loop nS nA prob s_next r gamma tol V = Some (Inr V_new) \<longrightarrow> (\<forall>x \<in> set V_new. 0 \<le> x))"
proof (intro conjI impI)
  assume "q_values prob s_next r gamma V = Inr Q \<and> length Q = nS \<and> 0 < nA"
  then show "vi_sweep nS nA prob s_next r gamma V = Inr (map (\<lambda>row. max 0 (amax row)) Q)"
    by (simp add: vi_sweep_def Let_def np_max_axis1_def map2_max_zero_eq comp_def)
next
  assume "vi_iterate nS nA prob s_next r gamma k = Inr V'"
  then show "\<forall>x \<in> set V'. 0 \<le> x" by (rule vi_iterate_nonneg)
next
  assume "vi_loop nS nA prob s_next r gamma tol V = Some (Inr V_new)"
  from vi_loop_nonneg [OF this] show "\<forall>x \<in> set V_new. 0 \<le> x" by simp
qed

theorem value_iteration_iterates_nonnegative_witness:
  "(q_values [[1]] [[0]] [[- 1]] (1 / 2) [0] = Inr [[- 1]] \<and> length [[- 1 :: real]] = 1 \<and> (0::nat) < 1)
   \<and> vi_sweep 1 1 [[1]] [[0]] [[- 1]] (1 / 2) [0] = Inr (map (\<lambda>row. max 0 (amax row)) [[- 1]])
   \<and> vi_iterate 1 1 [[1]] [[0]] [[- 1]] (1 / 2) 3 = Inr [0]
   \<and> vi_loop 1 1 [[1]] [[0]] [[- 1]] (1 / 2) (1 / 1000) [0] = Some (Inr [0])
   \<and> list_all (\<lambda>x. 0 \<le> x) [0 :: real]"
proof -
  have h1: "q_values [[1]] [[0]] [[- 1]] (1 / 2) [0] = Inr [[- 1]] \<and> length [[- 1 :: real]] = 1
      \<and> (0::nat) < 1"
    by code_simp
  have h2: "vi_iterate 1 1 [[1]] [[0]] [[- 1]] (1 / 2) 3 = Inr [0]" by code_simp
  have h3: "vi_loop 1 1 [[1]] [[0]] [[- 1]] (1 / 2) (1 / 1000) [0] = Some (Inr [0])" by code_simp
  from value_iteration_iterates_nonnegative
    [of "[[1]]" "[[0]]" "[[- 1]]" "1 / 2" "[0]" "[[- 1]]" 1 1 3 "[0]" "1 / 1000" "[0]"] h1 h2 h3
  show ?thesis by (simp add: list_all_iff)
qed

subsection \<open>Policy evaluation on a single-outcome model\<close>













subsection \<open>The loop returns at the first iterate that meets the tolerance\<close>



subsection \<open>Geometric decay reaches every positive tolerance\<close>


subsection \<open>The maximum absolute difference\<close>





subsection \<open>The policy-evaluation update is a contraction\<close>






subsection \<open>Value iteration on a single-outcome model\<close>





subsection \<open>The value-iteration sweep is a contraction\<close>




subsection \<open>Termination of \<^verbatim>\<open>value_iteration\<close> under a valid configuration\<close>




subsection \<open>The loops have no iteration cap\<close>






end
